theory Spec2Isabelle
  imports Main "HOL-Library.Word"
begin

section \<open>JavaScript strings\<close>

text \<open>
  A JavaScript string is a sequence of 16-bit code units. The text that the engine reads
  from the document and writes to the buffer is kept as such; \<open>js\<close> gives the code units
  of an ASCII literal. Names that the code only compares with ASCII literals (tag names,
  style values, property keys) and error messages are written as \<open>string\<close>.
\<close>

type_synonym jsstring = "16 word list"

definition js :: "string \<Rightarrow> jsstring" where
  "js s = map of_char s"

section \<open>The DOM as the engine reads it\<close>

text \<open>
  A DOM node carries exactly what \<open>Europa.convertElement\<close> (and its older twin
  \<open>Transformer.transformElement\<close>) reads from it: \<open>nodeType\<close>, the tag name,
  \<open>nodeValue\<close> (\<open>None\<close> is JavaScript's \<open>null\<close>/\<open>undefined\<close>), the two
  computed style properties that \<open>getComputedStyle\<close> reports for it, and \<open>childNodes\<close>.
\<close>

datatype node = Node
  (nodeType: nat)
  (nodeName: string)
  (nodeValue: "jsstring option")
  (display: string)
  (visibility: string)
  (childNodes: "node list")

definition ELEMENT_NODE :: nat where
  "ELEMENT_NODE = 1"

definition TEXT_NODE :: nat where
  "TEXT_NODE = 3"

text \<open>
  \<open>Transformer._isVisible\<close> (src/lib/transformer.js, 174-178):
  \<^verbatim>\<open>style.getPropertyValue('display') !== 'none' &&
  style.getPropertyValue('visibility') !== 'hidden'\<close>.
\<close>

definition isVisible :: "node \<Rightarrow> bool" where
  "isVisible element \<longleftrightarrow> display element \<noteq> ''none'' \<and> visibility element \<noteq> ''hidden''"

section \<open>JavaScript values and completions\<close>

text \<open>
  What a plugin hook may hand back or store in the per-element context. A hook that has no
  \<open>return\<close> statement yields \<open>JUndefined\<close>.
\<close>

datatype jsval = JUndefined | JNull | JBool bool | JString jsstring

text \<open>The test of \<open>if (x)\<close>.\<close>

fun truthy :: "jsval \<Rightarrow> bool" where
  "truthy JUndefined = False"
| "truthy JNull = False"
| "truthy (JBool b) = b"
| "truthy (JString s) = (s \<noteq> [])"

text \<open>A call either returns a value or throws; the thrown value is the error's message.\<close>

datatype 'a completion = Return 'a | Throw string

section \<open>The Conversion object and the plugins\<close>

text \<open>
  Modelled from the spec: the class \<open>Conversion\<close> (\<open>./Conversion\<close>, the spec's Output
  State) is not among the source files. The record has the fields of the spec's data model
  that the engine and the plugins under src/ read and write. Its constructor and its
  methods \<open>output\<close> and \<open>append\<close> are parameters of the engine (record \<open>europa\<close> below).
\<close>

record conversion =
  element :: "node option"
  buffer :: jsstring
  atLeft :: bool
  atParagraph :: bool
  atNoWhiteSpace :: bool
  left :: jsstring
  inCodeBlock :: bool
  inPreformattedBlock :: bool

text \<open>\<open>String.prototype.toLowerCase\<close> on the letters of a tag name.\<close>

definition toLowerCase :: "string \<Rightarrow> string" where
  "toLowerCase s =
     map (\<lambda>c. case map_of (zip ''ABCDEFGHIJKLMNOPQRSTUVWXYZ'' ''abcdefghijklmnopqrstuvwxyz'') c of
                None \<Rightarrow> c
              | Some l \<Rightarrow> l) s"

text \<open>
  Modelled from the spec: the getter \<open>conversion.tagName\<close> belongs to the missing class; the
  spec defines it as the lower-cased name of the current element, empty when there is none.
\<close>

definition tagName :: "conversion \<Rightarrow> string" where
  "tagName c = (case element c of None \<Rightarrow> [] | Some e \<Rightarrow> toLowerCase (nodeName e))"

text \<open>The per-element context \<open>{}\<close>: string keys, in insertion order.\<close>

type_synonym elem_context = "(string \<times> jsval) list"

text \<open>
  A plugin: \<open>getTagNames\<close> and the five hooks of the contract. JavaScript objects have
  an identity, here \<open>plugin_id\<close>. Each hook mutates the conversion (and the context) in place and either
  returns or throws, so it yields its completion together with the objects as it left them.
  Hooks are functions of the conversion and the context only: a hook that calls back into
  the engine (\<open>FramePlugin.convert\<close>) is outside this model.
\<close>

record plugin =
  plugin_id :: nat
  plugin_tagNames :: "string list"
  plugin_beforeAll :: "conversion \<Rightarrow> unit completion \<times> conversion"
  plugin_before :: "conversion \<Rightarrow> elem_context \<Rightarrow> unit completion \<times> conversion \<times> elem_context"
  plugin_convert :: "conversion \<Rightarrow> elem_context \<Rightarrow> jsval completion \<times> conversion \<times> elem_context"
  plugin_after :: "conversion \<Rightarrow> elem_context \<Rightarrow> unit completion \<times> conversion \<times> elem_context"
  plugin_afterAll :: "conversion \<Rightarrow> unit completion \<times> conversion"

text \<open>
  The collaborators of \<open>Europa\<close> that are not among the source files, taken as parameters:
  \<^item> \<open>plugins\<close>: \<open>pluginManager.plugins\<close>, an object from tag name to plugin, as the
    association list of its own properties in iteration order;
  \<^item> \<open>createElement\<close>, \<open>setInnerHTML\<close>: the DOM provider behind \<open>window.document\<close>;
  \<^item> \<open>newConversion\<close>: \<open>new Conversion(this, options)\<close>;
  \<^item> \<open>conversion_output\<close>, \<open>conversion_append\<close>: \<open>Conversion.prototype.output\<close>
    (text, then the \<open>clean\<close> flag, absent read as false) and \<open>Conversion.prototype.append\<close>.
\<close>

record europa =
  plugins :: "(string \<times> plugin) list"
  createElement :: "string \<Rightarrow> node"
  setInnerHTML :: "node \<Rightarrow> jsstring \<Rightarrow> node"
  newConversion :: conversion
  conversion_output :: "jsstring \<Rightarrow> bool \<Rightarrow> conversion \<Rightarrow> conversion"
  conversion_append :: "jsstring \<Rightarrow> conversion \<Rightarrow> conversion"

section \<open>The engine\<close>

text \<open>
  The calls the engine makes on its collaborators, in the order it makes them. The source
  performs them as method calls; the model records each one next to the conversion, where
  no hook can touch the record.
\<close>

datatype call =
    BeforeAll nat
  | AfterAll nat
  | Before nat node
  | Convert nat node
  | After nat node
  | Output jsstring bool

record machine =
  conv :: conversion
  calls :: "call list"

definition callBeforeAll :: "plugin \<Rightarrow> machine \<Rightarrow> unit completion \<times> machine" where
  "callBeforeAll p m =
     (case plugin_beforeAll p (conv m) of
        (r, c) \<Rightarrow> (r, \<lparr>conv = c, calls = calls m @ [BeforeAll (plugin_id p)]\<rparr>))"

definition callAfterAll :: "plugin \<Rightarrow> machine \<Rightarrow> unit completion \<times> machine" where
  "callAfterAll p m =
     (case plugin_afterAll p (conv m) of
        (r, c) \<Rightarrow> (r, \<lparr>conv = c, calls = calls m @ [AfterAll (plugin_id p)]\<rparr>))"

definition callBefore ::
  "plugin \<Rightarrow> node \<Rightarrow> elem_context \<Rightarrow> machine \<Rightarrow> unit completion \<times> elem_context \<times> machine" where
  "callBefore p e ctx m =
     (case plugin_before p (conv m) ctx of
        (r, c, ctx') \<Rightarrow> (r, ctx', \<lparr>conv = c, calls = calls m @ [Before (plugin_id p) e]\<rparr>))"

definition callConvert ::
  "plugin \<Rightarrow> node \<Rightarrow> elem_context \<Rightarrow> machine \<Rightarrow> jsval completion \<times> elem_context \<times> machine" where
  "callConvert p e ctx m =
     (case plugin_convert p (conv m) ctx of
        (r, c, ctx') \<Rightarrow> (r, ctx', \<lparr>conv = c, calls = calls m @ [Convert (plugin_id p) e]\<rparr>))"

definition callAfter ::
  "plugin \<Rightarrow> node \<Rightarrow> elem_context \<Rightarrow> machine \<Rightarrow> unit completion \<times> machine" where
  "callAfter p e ctx m =
     (case plugin_after p (conv m) ctx of
        (r, c, ctx') \<Rightarrow> (r, \<lparr>conv = c, calls = calls m @ [After (plugin_id p) e]\<rparr>))"

definition callOutput :: "europa \<Rightarrow> jsstring \<Rightarrow> bool \<Rightarrow> machine \<Rightarrow> unit completion \<times> machine" where
  "callOutput E s clean m =
     (Return (), \<lparr>conv = conversion_output E s clean (conv m), calls = calls m @ [Output s clean]\<rparr>)"

text \<open>\<open>value.replace(/`/g, '\\`')\<close>: a backslash before every backtick.\<close>

definition escapeBackticks :: "jsstring \<Rightarrow> jsstring" where
  "escapeBackticks s = concat (map (\<lambda>c. if c = 0x60 then [0x5C, 0x60] else [c]) s)"

text \<open>
  \<open>Europa.convertElement\<close> (src/unnamed/part_000, 117-162), line for line the same
  procedure as \<open>Transformer.transformElement\<close> (src/lib/transformer.js, 115-162), whose
  hook \<open>transform\<close> is \<open>convert\<close> here. \<open>convertChildren\<close> is the \<open>for\<close> loop over
  \<open>element.childNodes\<close>; a throw leaves every enclosing call at once.
\<close>

function convertElement :: "europa \<Rightarrow> node option \<Rightarrow> machine \<Rightarrow> unit completion \<times> machine"
  and convertChildren :: "europa \<Rightarrow> node list \<Rightarrow> machine \<Rightarrow> unit completion \<times> machine"
where
  "convertElement E None m = (Return (), m)"
| "convertElement E (Some el) m =
     (if nodeType el = ELEMENT_NODE then
        if \<not> isVisible el then (Return (), m)
        else
          let m0 = m\<lparr>conv := (conv m)\<lparr>element := Some el\<rparr>\<rparr> in
          (case map_of (plugins E) (tagName (conv m0)) of
             None \<Rightarrow> convertChildren E (childNodes el) m0
           | Some p \<Rightarrow>
               (case callBefore p el [] m0 of
                  (Throw err, ctx1, m1) \<Rightarrow> (Throw err, m1)
                | (Return u, ctx1, m1) \<Rightarrow>
                    (case callConvert p el ctx1 m1 of
                       (Throw err, ctx2, m2) \<Rightarrow> (Throw err, m2)
                     | (Return v, ctx2, m2) \<Rightarrow>
                         (case (if truthy v then convertChildren E (childNodes el) m2
                                else (Return (), m2)) of
                            (Throw err, m3) \<Rightarrow> (Throw err, m3)
                          | (Return u', m3) \<Rightarrow> callAfter p el ctx2 m3))))
      else if nodeType el = TEXT_NODE then
        let v = (case nodeValue el of None \<Rightarrow> [] | Some s \<Rightarrow> s) in
        if inPreformattedBlock (conv m) then callOutput E v False m
        else if inCodeBlock (conv m) then callOutput E (escapeBackticks v) False m
        else callOutput E v True m
      else (Return (), m))"
| "convertChildren E [] m = (Return (), m)"
| "convertChildren E (n # ns) m =
     (case convertElement E (Some n) m of
        (Throw err, m') \<Rightarrow> (Throw err, m')
      | (Return u, m') \<Rightarrow> convertChildren E ns m')"
  by pat_completeness auto
termination
proof -
  have children_smaller: "size_list size (childNodes el) \<le> size el" for el :: node
    by (cases el) simp
  show ?thesis
    by (relation "measure (\<lambda>x. case x of
            Inl (E, el, m) \<Rightarrow> 2 * size_option size el
          | Inr (E, ns, m) \<Rightarrow> 2 * size_list size ns + 1)")
       (auto simp: children_smaller less_Suc_eq_le)
qed

text \<open>
  \<open>Utilities.forOwn(pluginManager.plugins, function(plugin) { plugin.beforeAll(conversion); })\<close>:
  one call for every own property of the registry object, that is, for every tag name.
\<close>

fun forOwn_beforeAll :: "(string \<times> plugin) list \<Rightarrow> machine \<Rightarrow> unit completion \<times> machine" where
  "forOwn_beforeAll [] m = (Return (), m)"
| "forOwn_beforeAll ((key, p) # rest) m =
     (case callBeforeAll p m of
        (Throw err, m') \<Rightarrow> (Throw err, m')
      | (Return u, m') \<Rightarrow> forOwn_beforeAll rest m')"

fun forOwn_afterAll :: "(string \<times> plugin) list \<Rightarrow> machine \<Rightarrow> unit completion \<times> machine" where
  "forOwn_afterAll [] m = (Return (), m)"
| "forOwn_afterAll ((key, p) # rest) m =
     (case callAfterAll p m of
        (Throw err, m') \<Rightarrow> (Throw err, m')
      | (Return u, m') \<Rightarrow> forOwn_afterAll rest m')"

text \<open>
  \<open>String.prototype.trim\<close> strips from both ends the code units that ECMAScript calls
  white space or line terminators: tab, line feed, vertical tab, form feed, carriage
  return, space, no-break space (U+00A0), the other space separators of Unicode (U+1680,
  U+2000 to U+200A, U+202F, U+205F, U+3000), the line and paragraph separators (U+2028,
  U+2029) and the byte order mark (U+FEFF). All of them lie in the basic plane, so each is
  one code unit. (U+180E, a space separator only before Unicode 6.3, is not among them.)
\<close>

definition isWhiteSpace :: "16 word \<Rightarrow> bool" where
  "isWhiteSpace c \<longleftrightarrow>
     c \<in> {0x0009, 0x000A, 0x000B, 0x000C, 0x000D, 0x0020, 0x00A0, 0x1680,
          0x2000, 0x2001, 0x2002, 0x2003, 0x2004, 0x2005, 0x2006, 0x2007, 0x2008, 0x2009,
          0x200A, 0x2028, 0x2029, 0x202F, 0x205F, 0x3000, 0xFEFF}"

definition trim :: "jsstring \<Rightarrow> jsstring" where
  "trim s = rev (dropWhile isWhiteSpace (rev (dropWhile isWhiteSpace s)))"

text \<open>The argument of \<open>convert\<close>: an HTML string, an element, or nothing.\<close>

datatype html = HtmlUndefined | HtmlNull | HtmlString jsstring | HtmlElement node

text \<open>\<open>!html\<close>.\<close>

fun falsy :: "html \<Rightarrow> bool" where
  "falsy HtmlUndefined = True"
| "falsy HtmlNull = True"
| "falsy (HtmlString s) = (s = [])"
| "falsy (HtmlElement e) = False"

text \<open>
  Lines 83-88 of \<open>Europa.convert\<close>: a string becomes the inner HTML of a new \<open>div\<close>,
  anything else is the root as it is.
\<close>

fun rootOf :: "europa \<Rightarrow> html \<Rightarrow> node option" where
  "rootOf E (HtmlString s) = Some (setInnerHTML E (createElement E ''div'') s)"
| "rootOf E (HtmlElement e) = Some e"
| "rootOf E HtmlUndefined = None"
| "rootOf E HtmlNull = None"

text \<open>
  Lines 90-100 of \<open>Europa.convert\<close>: the new conversion, the \<open>beforeAll\<close> hooks, the
  traversal from the root, the \<open>afterAll\<close> hooks.
\<close>

definition runConversion :: "europa \<Rightarrow> node option \<Rightarrow> unit completion \<times> machine" where
  "runConversion E root =
     (case forOwn_beforeAll (plugins E) \<lparr>conv = newConversion E, calls = []\<rparr> of
        (Throw err, m1) \<Rightarrow> (Throw err, m1)
      | (Return u, m1) \<Rightarrow>
          (case convertElement E root m1 of
             (Throw err, m2) \<Rightarrow> (Throw err, m2)
           | (Return u', m2) \<Rightarrow> forOwn_afterAll (plugins E) m2))"

text \<open>
  \<open>Europa.convert\<close> (src/unnamed/part_000, 67-103; \<open>Transformer.transform\<close> in
  src/lib/transformer.js, 76-102). The result is what the caller gets, the returned Markdown
  or the error thrown, together with the calls made. Option parsing only feeds the
  constructor of the conversion, which is a parameter.
\<close>

definition convert :: "europa \<Rightarrow> html \<Rightarrow> jsstring completion \<times> call list" where
  "convert E html =
     (if falsy html then (Return [], [])
      else
        (case runConversion E (rootOf E html) of
           (Throw err, m) \<Rightarrow> (Throw err, calls m)
         | (Return u, m) \<Rightarrow> (Return (trim (buffer (conversion_append E [] (conv m)))), calls m)))"

section \<open>Reading the sequence of calls\<close>

text \<open>The two conversion-wide hooks, as opposed to the calls made for a single node.\<close>

fun isAllHook :: "call \<Rightarrow> bool" where
  "isAllHook (BeforeAll i) = True"
| "isAllHook (AfterAll i) = True"
| "isAllHook c = False"

text \<open>The node a call was made for.\<close>

fun callNode :: "call \<Rightarrow> node option" where
  "callNode (Before i n) = Some n"
| "callNode (Convert i n) = Some n"
| "callNode (After i n) = Some n"
| "callNode c = None"

text \<open>
  \<open>before\<close> and \<open>after\<close> as brackets: \<open>before\<close> opens one for its plugin and element,
  \<open>after\<close> must close the innermost open one. A sequence of calls is \<open>paired\<close> when every
  bracket is closed by its own \<open>after\<close> and nothing is closed that was not opened.
\<close>

fun hookStack :: "(nat \<times> node) list \<Rightarrow> call list \<Rightarrow> (nat \<times> node) list option" where
  "hookStack st [] = Some st"
| "hookStack st (Before i n # cs) = hookStack ((i, n) # st) cs"
| "hookStack st (After i n # cs) =
     (case st of
        [] \<Rightarrow> None
      | open # st' \<Rightarrow> if open = (i, n) then hookStack st' cs else None)"
| "hookStack st (c # cs) = hookStack st cs"

definition paired :: "call list \<Rightarrow> bool" where
  "paired cs \<longleftrightarrow> hookStack [] cs = Some []"

text \<open>
  What a visit adds to the sequence of calls: \<open>extends bound m res\<close> holds when the calls
  of the result continue those of \<open>m\<close> with calls made for single nodes, every one for a
  node of size below \<open>bound\<close>, and paired when the visit returned.
\<close>

definition extends :: "nat \<Rightarrow> machine \<Rightarrow> unit completion \<times> machine \<Rightarrow> bool" where
  "extends bound m res \<longleftrightarrow>
     (\<exists>d. calls (snd res) = calls m @ d
        \<and> (\<forall>c\<in>set d. \<not> isAllHook c \<and> (\<forall>n. callNode c = Some n \<longrightarrow> size n < bound))
        \<and> (fst res = Return () \<longrightarrow> paired d))"


section \<open>Plugins, a registry and documents to run the engine on\<close>

text \<open>
  Modelled from the spec: \<open>PluginManager.register\<close> is not among the source files. For each
  declared tag name it overwrites the existing mapping, or adds one at the end.
\<close>

fun assign :: "string \<Rightarrow> plugin \<Rightarrow> (string \<times> plugin) list \<Rightarrow> (string \<times> plugin) list" where
  "assign k p [] = [(k, p)]"
| "assign k p ((k', q) # rest) = (if k = k' then (k, p) # rest else (k', q) # assign k p rest)"

definition register :: "plugin \<Rightarrow> (string \<times> plugin) list \<Rightarrow> (string \<times> plugin) list" where
  "register p registry = foldl (\<lambda>r k. assign k p r) registry (plugin_tagNames p)"

text \<open>
  The hooks a plugin does not override come from the base class \<open>Plugin\<close>, which is not
  among the source files: they are taken to do nothing, and \<open>convert\<close> to return true.
\<close>

definition basePlugin :: plugin where
  "basePlugin =
     \<lparr>plugin_id = 0, plugin_tagNames = [],
      plugin_beforeAll = (\<lambda>c. (Return (), c)),
      plugin_before = (\<lambda>c ctx. (Return (), c, ctx)),
      plugin_convert = (\<lambda>c ctx. (Return (JBool True), c, ctx)),
      plugin_after = (\<lambda>c ctx. (Return (), c, ctx)),
      plugin_afterAll = (\<lambda>c. (Return (), c))\<rparr>"

text \<open>
  \<open>StrongPlugin\<close> (src/src/plugin/predefined/StrongPlugin.js, 35-65), over the \<open>output\<close>
  method of the conversion.
\<close>

definition StrongPlugin :: "(jsstring \<Rightarrow> bool \<Rightarrow> conversion \<Rightarrow> conversion) \<Rightarrow> plugin" where
  "StrongPlugin out =
     basePlugin\<lparr>plugin_id := 1, plugin_tagNames := [''b'', ''strong''],
       plugin_after := (\<lambda>c ctx. (Return (), out (js ''**'') False c, ctx)),
       plugin_convert :=
         (\<lambda>c ctx. (Return (JBool True), (out (js ''**'') False c)\<lparr>atNoWhiteSpace := True\<rparr>, ctx))\<rparr>"

text \<open>A plugin whose \<open>before\<close> hook throws.\<close>

definition throwingPlugin :: plugin where
  "throwingPlugin =
     basePlugin\<lparr>plugin_id := 2, plugin_tagNames := [''script''],
       plugin_before := (\<lambda>c ctx. (Throw ''boom'', c, ctx))\<rparr>"

text \<open>
  A plugin whose \<open>convert\<close> hook ends without a \<open>return\<close> statement, the way
  \<open>PreformattedPlugin.transform\<close> (src/src/plugin/predefined/StrongPlugin.js, 127-137) is
  written.
\<close>

definition noReturnPlugin :: plugin where
  "noReturnPlugin =
     basePlugin\<lparr>plugin_id := 3, plugin_tagNames := [''pre''],
       plugin_convert := (\<lambda>c ctx. (Return JUndefined, c, ctx))\<rparr>"

text \<open>
  A conversion that appends what it is given to its buffer, and a DOM provider whose
  \<open>innerHTML\<close> setter reads markup-free text as one text node.
\<close>

definition plainOutput :: "jsstring \<Rightarrow> bool \<Rightarrow> conversion \<Rightarrow> conversion" where
  "plainOutput s clean c = c\<lparr>buffer := buffer c @ s\<rparr>"

definition textNode :: "jsstring \<Rightarrow> node" where
  "textNode s = Node TEXT_NODE ''#text'' (Some s) [] [] []"

definition elementNode :: "string \<Rightarrow> node list \<Rightarrow> node" where
  "elementNode name children = Node ELEMENT_NODE name None ''block'' ''visible'' children"

definition exampleEuropa :: "(string \<times> plugin) list \<Rightarrow> europa" where
  "exampleEuropa registry =
     \<lparr>plugins = registry,
      createElement = (\<lambda>name. elementNode name []),
      setInnerHTML = (\<lambda>n s. Node (nodeType n) (nodeName n) (nodeValue n) (display n)
                                (visibility n) [textNode s]),
      newConversion =
        \<lparr>element = None, buffer = [], atLeft = True, atParagraph = True,
         atNoWhiteSpace = True, left = [0x0A], inCodeBlock = False,
         inPreformattedBlock = False\<rparr>,
      conversion_output = plainOutput,
      conversion_append = (\<lambda>s c. c\<lparr>buffer := buffer c @ s\<rparr>)\<rparr>"

definition exampleRegistry :: "(string \<times> plugin) list" where
  "exampleRegistry =
     register noReturnPlugin (register throwingPlugin (register (StrongPlugin plainOutput) []))"

definition strongRegistry :: "(string \<times> plugin) list" where
  "strongRegistry = register (StrongPlugin plainOutput) []"

text \<open>The text \<open>hi\<close> between white space that is not ASCII.\<close>

definition paddedHi :: jsstring where
  "paddedHi = [0xFEFF, 0x00A0] @ js '' hi '' @ [0x2028, 0x3000]"

definition startMachine :: machine where
  "startMachine = \<lparr>conv = newConversion (exampleEuropa exampleRegistry), calls = []\<rparr>"

definition boldText :: node where
  "boldText = elementNode ''B'' [textNode (js ''x'')]"

definition boldScript :: node where
  "boldScript = elementNode ''B'' [textNode (js ''x''), elementNode ''SCRIPT'' []]"

definition preText :: node where
  "preText = elementNode ''PRE'' [textNode (js ''x'')]"

lemmas example_defs =
  exampleEuropa_def exampleRegistry_def register_def StrongPlugin_def throwingPlugin_def
  noReturnPlugin_def basePlugin_def plainOutput_def textNode_def elementNode_def
  strongRegistry_def paddedHi_def startMachine_def boldText_def boldScript_def preText_def
  ELEMENT_NODE_def TEXT_NODE_def

lemmas call_defs =
  callBeforeAll_def callAfterAll_def callBefore_def callConvert_def callAfter_def
  callOutput_def

lemmas eval_defs =
  example_defs call_defs isVisible_def tagName_def toLowerCase_def js_def Let_def

section \<open>Lemmas on the sequence of calls\<close>

lemma escapeBackticks_Nil: "escapeBackticks [] = []"
  by (simp add: escapeBackticks_def)

lemma hookStack_append:
  "hookStack st (a @ b) = (case hookStack st a of None \<Rightarrow> None | Some st' \<Rightarrow> hookStack st' b)"
  by (induction st a rule: hookStack.induct) (auto split: list.splits)

lemma hookStack_frame:
  "hookStack st a = Some st' \<Longrightarrow> hookStack (st @ t) a = Some (st' @ t)"
  by (induction st a rule: hookStack.induct) (auto split: list.splits if_splits)

lemma paired_Nil: "paired []"
  by (simp add: paired_def)

lemma paired_append: "paired a \<Longrightarrow> paired b \<Longrightarrow> paired (a @ b)"
  by (simp add: paired_def hookStack_append)

lemma paired_Output: "paired [Output s clean]"
  by (simp add: paired_def)

lemma paired_bracket:
  assumes "paired mid"
  shows "paired (Before i n # Convert i n # mid @ [After i n])"
proof -
  from assms have "hookStack ([] @ [(i, n)]) mid = Some ([] @ [(i, n)])"
    unfolding paired_def by (rule hookStack_frame)
  then show ?thesis
    by (simp add: paired_def hookStack_append)
qed

lemma child_smaller: "n \<in> set (childNodes el) \<Longrightarrow> size n < size el"
  by (cases el) (auto simp: less_Suc_eq_le size_list_estimation')

lemma callBefore_calls:
  "callBefore p el ctx m = (r, ctx', m') \<Longrightarrow> calls m' = calls m @ [Before (plugin_id p) el]"
  by (auto simp: callBefore_def split: prod.splits)

lemma callConvert_calls:
  "callConvert p el ctx m = (r, ctx', m') \<Longrightarrow> calls m' = calls m @ [Convert (plugin_id p) el]"
  by (auto simp: callConvert_def split: prod.splits)

lemma callAfter_calls:
  "callAfter p el ctx m = (r, m') \<Longrightarrow> calls m' = calls m @ [After (plugin_id p) el]"
  by (auto simp: callAfter_def split: prod.splits)

lemma extends_refl: "extends b m (Return (), m)"
  by (simp add: extends_def paired_Nil)

lemma extends_mono: "extends b m res \<Longrightarrow> b \<le> b' \<Longrightarrow> extends b' m res"
  unfolding extends_def by (meson less_le_trans)

lemma extends_children:
  assumes "\<And>n m. n \<in> set ns \<Longrightarrow> extends b m (convertElement E (Some n) m)"
  shows "extends b m (convertChildren E ns m)"
  using assms
proof (induction ns arbitrary: m)
  case Nil
  show ?case by (simp add: extends_refl)
next
  case (Cons n ns)
  obtain r m1 where first: "convertElement E (Some n) m = (r, m1)"
    by (cases "convertElement E (Some n) m")
  have e1: "extends b m (r, m1)"
    using Cons.prems [of n m] first by simp
  show ?case
  proof (cases r)
    case (Throw err)
    with first e1 show ?thesis by simp
  next
    case (Return u)
    have e2: "extends b m1 (convertChildren E ns m1)"
      using Cons.IH Cons.prems by simp
    from e1 Return obtain d1 where d1: "calls m1 = calls m @ d1" "paired d1"
      "\<forall>c\<in>set d1. \<not> isAllHook c \<and> (\<forall>n. callNode c = Some n \<longrightarrow> size n < b)"
      unfolding extends_def by auto
    from e2 obtain d2 where d2: "calls (snd (convertChildren E ns m1)) = calls m1 @ d2"
      "fst (convertChildren E ns m1) = Return () \<longrightarrow> paired d2"
      "\<forall>c\<in>set d2. \<not> isAllHook c \<and> (\<forall>n. callNode c = Some n \<longrightarrow> size n < b)"
      unfolding extends_def by auto
    have "convertChildren E (n # ns) m = convertChildren E ns m1"
      using first Return by simp
    moreover have "extends b m (convertChildren E ns m1)"
      unfolding extends_def
      using d1 d2 by (intro exI [of _ "d1 @ d2"]) (auto simp: paired_append)
    ultimately show ?thesis by simp
  qed
qed


lemma tagName_element: "tagName ((conv m)\<lparr>element := Some el\<rparr>) = toLowerCase (nodeName el)"
  by (simp add: tagName_def)

lemma matched_element_calls:
  assumes elem: "nodeType el = ELEMENT_NODE" "isVisible el"
    and look: "map_of (plugins E) (toLowerCase (nodeName el)) = Some p"
    and ch: "\<And>m. extends (size el) m (convertChildren E (childNodes el) m)"
    and res: "convertElement E (Some el) m = (r, m')"
  shows "\<exists>d. calls m' = calls m @ Before (plugin_id p) el # d
           \<and> (\<forall>c\<in>set d. \<not> isAllHook c \<and> (\<forall>n. callNode c = Some n \<longrightarrow> size n < Suc (size el)))
           \<and> (r = Return () \<longrightarrow>
                (\<exists>mid. d = Convert (plugin_id p) el # mid @ [After (plugin_id p) el]
                   \<and> paired mid
                   \<and> (\<forall>c\<in>set mid. \<not> isAllHook c
                         \<and> (\<forall>n. callNode c = Some n \<longrightarrow> size n < size el))))"
proof -
  define m0 where "m0 = m\<lparr>conv := (conv m)\<lparr>element := Some el\<rparr>\<rparr>"
  have c0: "calls m0 = calls m" by (simp add: m0_def)
  obtain r1 ctx1 m1 where b: "callBefore p el [] m0 = (r1, ctx1, m1)"
    by (cases "callBefore p el [] m0") auto
  have c1: "calls m1 = calls m @ [Before (plugin_id p) el]"
    using callBefore_calls [OF b] c0 by simp
  obtain r2 ctx2 m2 where t: "callConvert p el ctx1 m1 = (r2, ctx2, m2)"
    by (cases "callConvert p el ctx1 m1") auto
  have c2: "calls m2 = calls m @ [Before (plugin_id p) el, Convert (plugin_id p) el]"
    using callConvert_calls [OF t] c1 by simp
  show ?thesis
  proof (cases r1)
    case (Throw err)
    then have "convertElement E (Some el) m = (Throw err, m1)"
      using elem look b by (simp add: tagName_element m0_def)
    with res c1 show ?thesis by auto
  next
    case r1: (Return u1)
    show ?thesis
    proof (cases r2)
      case (Throw err)
      then have "convertElement E (Some el) m = (Throw err, m2)"
        using elem look b t r1 by (simp add: tagName_element m0_def)
      with res c2 show ?thesis by auto
    next
      case r2: (Return v)
      define kids where
        "kids = (if truthy v then convertChildren E (childNodes el) m2 else (Return (), m2))"
      obtain r3 m3 where k: "kids = (r3, m3)" by (cases kids)
      have "extends (size el) m2 kids"
        using ch [of m2] by (simp add: kids_def extends_refl)
      with k obtain mid where mid: "calls m3 = calls m2 @ mid"
        "\<forall>c\<in>set mid. \<not> isAllHook c \<and> (\<forall>n. callNode c = Some n \<longrightarrow> size n < size el)"
        "r3 = Return () \<longrightarrow> paired mid"
        unfolding extends_def by auto
      show ?thesis
      proof (cases r3)
        case (Throw err)
        then have "convertElement E (Some el) m = (Throw err, m3)"
          using elem look b t r1 r2 k
          by (simp add: tagName_element m0_def kids_def [symmetric])
        with res have "r = Throw err" "m' = m3" by simp_all
        then show ?thesis using mid c2 by (auto simp: less_Suc_eq)
      next
        case r3: (Return u3)
        obtain r4 m4 where a: "callAfter p el ctx2 m3 = (r4, m4)"
          by (cases "callAfter p el ctx2 m3")
        have "convertElement E (Some el) m = (r4, m4)"
          using elem look b t r1 r2 k r3 a
          by (simp add: tagName_element m0_def kids_def [symmetric])
        with res have eq: "r = r4" "m' = m4" by simp_all
        have "calls m' = calls m @ Before (plugin_id p) el
                # (Convert (plugin_id p) el # mid @ [After (plugin_id p) el])"
          using callAfter_calls [OF a] mid(1) c2 eq by simp
        moreover have "paired mid" using mid(3) r3 by simp
        ultimately show ?thesis
          using mid(2) by (intro exI [of _ "Convert (plugin_id p) el # mid @ [After (plugin_id p) el]"])
            (auto simp: less_Suc_eq)
      qed
    qed
  qed
qed


lemma element_extends:
  assumes ch: "\<And>m. extends (size el) m (convertChildren E (childNodes el) m)"
  shows "extends (Suc (size el)) m (convertElement E (Some el) m)"
proof (cases "nodeType el = ELEMENT_NODE")
  case False
  then show ?thesis
    by (auto simp: extends_def callOutput_def paired_Output paired_Nil Let_def)
next
  case elem: True
  show ?thesis
  proof (cases "isVisible el")
    case False
    with elem show ?thesis by (simp add: extends_refl)
  next
    case vis: True
    show ?thesis
    proof (cases "map_of (plugins E) (toLowerCase (nodeName el))")
      case None
      then have "convertElement E (Some el) m =
                 convertChildren E (childNodes el) (m\<lparr>conv := (conv m)\<lparr>element := Some el\<rparr>\<rparr>)"
        using elem vis by (simp add: tagName_element)
      moreover have "extends (Suc (size el)) (m\<lparr>conv := (conv m)\<lparr>element := Some el\<rparr>\<rparr>)
                       (convertChildren E (childNodes el) (m\<lparr>conv := (conv m)\<lparr>element := Some el\<rparr>\<rparr>))"
        using ch by (rule extends_mono) simp
      ultimately show ?thesis by (simp add: extends_def)
    next
      case (Some p)
      obtain r m' where res: "convertElement E (Some el) m = (r, m')"
        by (cases "convertElement E (Some el) m")
      from matched_element_calls [OF elem vis Some ch res]
      obtain d where d: "calls m' = calls m @ Before (plugin_id p) el # d"
        "\<forall>c\<in>set d. \<not> isAllHook c \<and> (\<forall>n. callNode c = Some n \<longrightarrow> size n < Suc (size el))"
        "r = Return () \<longrightarrow>
           (\<exists>mid. d = Convert (plugin_id p) el # mid @ [After (plugin_id p) el] \<and> paired mid
              \<and> (\<forall>c\<in>set mid. \<not> isAllHook c \<and> (\<forall>n. callNode c = Some n \<longrightarrow> size n < size el)))"
        by blast
      have "r = Return () \<longrightarrow> paired (Before (plugin_id p) el # d)"
        using d(3) by (auto simp: paired_bracket)
      then show ?thesis
        unfolding extends_def res
        using d(1,2) by (intro exI [of _ "Before (plugin_id p) el # d"]) auto
    qed
  qed
qed

lemma visit_extends: "extends (Suc (size el)) m (convertElement E (Some el) m)"
proof (induction el arbitrary: m)
  case (Node ty name val disp vis children)
  have "extends (size (Node ty name val disp vis children)) m0
          (convertChildren E (childNodes (Node ty name val disp vis children)) m0)" for m0
  proof (rule extends_children)
    fix n m1
    assume n: "n \<in> set (childNodes (Node ty name val disp vis children))"
    then have "extends (Suc (size n)) m1 (convertElement E (Some n) m1)"
      using Node.IH by simp
    then show "extends (size (Node ty name val disp vis children)) m1 (convertElement E (Some n) m1)"
      using child_smaller [OF n] by (meson extends_mono Suc_leI)
  qed
  then show ?case by (rule element_extends)
qed

lemma children_extends: "extends (size el) m (convertChildren E (childNodes el) m)"
proof (rule extends_children)
  fix n m1
  assume n: "n \<in> set (childNodes el)"
  show "extends (size el) m1 (convertElement E (Some n) m1)"
    using visit_extends [of n m1 E] child_smaller [OF n] by (meson extends_mono Suc_leI)
qed

lemma root_extends: "\<exists>b. extends b m (convertElement E root m)"
proof (cases root)
  case None
  then show ?thesis by (auto simp: extends_refl)
next
  case (Some el)
  then show ?thesis using visit_extends by blast
qed

lemma boldText_run:
  "convertElement (exampleEuropa exampleRegistry) (Some boldText) startMachine =
     (Return (),
      \<lparr>conv = (newConversion (exampleEuropa exampleRegistry))
                \<lparr>element := Some boldText, buffer := js ''**x**''\<rparr>,
       calls = [Before 1 boldText, Convert 1 boldText, Output (js ''x'') True, After 1 boldText]\<rparr>)"
  by (simp add: eval_defs)



lemma forOwn_beforeAll_calls:
  "forOwn_beforeAll ps m = (Return (), m') \<Longrightarrow>
     calls m' = calls m @ map (\<lambda>(k, p). BeforeAll (plugin_id p)) ps"
proof (induction ps arbitrary: m)
  case Nil
  then show ?case by simp
next
  case (Cons kp ps)
  obtain k p where kp: "kp = (k, p)" by (cases kp)
  obtain r m1 where step: "callBeforeAll p m = (r, m1)" by (cases "callBeforeAll p m")
  have c1: "calls m1 = calls m @ [BeforeAll (plugin_id p)]"
    using step by (auto simp: callBeforeAll_def split: prod.splits)
  from Cons.prems kp step have "r = Return ()" "forOwn_beforeAll ps m1 = (Return (), m')"
    by (auto split: completion.splits)
  with Cons.IH [of m1] c1 kp show ?case by simp
qed

lemma forOwn_afterAll_calls:
  "forOwn_afterAll ps m = (Return (), m') \<Longrightarrow>
     calls m' = calls m @ map (\<lambda>(k, p). AfterAll (plugin_id p)) ps"
proof (induction ps arbitrary: m)
  case Nil
  then show ?case by simp
next
  case (Cons kp ps)
  obtain k p where kp: "kp = (k, p)" by (cases kp)
  obtain r m1 where step: "callAfterAll p m = (r, m1)" by (cases "callAfterAll p m")
  have c1: "calls m1 = calls m @ [AfterAll (plugin_id p)]"
    using step by (auto simp: callAfterAll_def split: prod.splits)
  from Cons.prems kp step have "r = Return ()" "forOwn_afterAll ps m1 = (Return (), m')"
    by (auto split: completion.splits)
  with Cons.IH [of m1] c1 kp show ?case by simp
qed

lemma runConversion_calls:
  assumes "runConversion E root = (Return (), m)"
  shows "\<exists>mid. calls m = map (\<lambda>(k, p). BeforeAll (plugin_id p)) (plugins E) @ mid
                   @ map (\<lambda>(k, p). AfterAll (plugin_id p)) (plugins E)
           \<and> (\<forall>c\<in>set mid. \<not> isAllHook c) \<and> paired mid"
proof -
  obtain r1 m1 where b: "forOwn_beforeAll (plugins E) \<lparr>conv = newConversion E, calls = []\<rparr> = (r1, m1)"
    by (cases "forOwn_beforeAll (plugins E) \<lparr>conv = newConversion E, calls = []\<rparr>")
  obtain r2 m2 where v: "convertElement E root m1 = (r2, m2)"
    by (cases "convertElement E root m1")
  from assms b v have r: "r1 = Return ()" "r2 = Return ()"
    and a: "forOwn_afterAll (plugins E) m2 = (Return (), m)"
    by (auto simp: runConversion_def split: completion.splits)
  have c1: "calls m1 = map (\<lambda>(k, p). BeforeAll (plugin_id p)) (plugins E)"
    using forOwn_beforeAll_calls [of "plugins E" _ m1] b r by simp
  obtain bound where "extends bound m1 (convertElement E root m1)"
    using root_extends by blast
  with v r obtain mid where mid: "calls m2 = calls m1 @ mid" "\<forall>c\<in>set mid. \<not> isAllHook c"
    "paired mid"
    unfolding extends_def by auto
  show ?thesis
    using forOwn_afterAll_calls [OF a] c1 mid by auto
qed

lemma count_list_BeforeAll:
  "count_list (map (\<lambda>(k, p). BeforeAll (plugin_id p)) ps) (BeforeAll i)
     = length (filter (\<lambda>(k, p). plugin_id p = i) ps)"
  "count_list (map (\<lambda>(k, p). AfterAll (plugin_id p)) ps) (BeforeAll i) = 0"
  by (induction ps) auto

lemma count_list_AfterAll:
  "count_list (map (\<lambda>(k, p). AfterAll (plugin_id p)) ps) (AfterAll i)
     = length (filter (\<lambda>(k, p). plugin_id p = i) ps)"
  "count_list (map (\<lambda>(k, p). BeforeAll (plugin_id p)) ps) (AfterAll i) = 0"
  by (induction ps) auto

lemma count_list_no_allHook:
  assumes "\<forall>c\<in>set mid. \<not> isAllHook c"
  shows "count_list mid (BeforeAll i) = 0" "count_list mid (AfterAll i) = 0"
  using assms by (induction mid) auto

lemma plain_run:
  "convert (exampleEuropa exampleRegistry) (HtmlString (js '' hi '')) =
     (Return (js ''hi''),
      [BeforeAll 1, BeforeAll 1, BeforeAll 2, BeforeAll 3, Output (js '' hi '') True,
       AfterAll 1, AfterAll 1, AfterAll 2, AfterAll 3])"
  by (simp add: eval_defs convert_def runConversion_def trim_def isWhiteSpace_def)

lemma escapeBackticks_snoc:
  "escapeBackticks (v @ [c]) =
     escapeBackticks v @ (if c = 0x60 then [0x5C, 0x60] else [c])"
  by (simp add: escapeBackticks_def)

lemma escapeBackticks_preceded:
  "i < length (escapeBackticks v) \<Longrightarrow> escapeBackticks v ! i = 0x60 \<Longrightarrow>
     0 < i \<and> escapeBackticks v ! (i - 1) = 0x5C"
proof (induction v arbitrary: i rule: rev_induct)
  case Nil
  then show ?case by (simp add: escapeBackticks_def)
next
  case (snoc c v)
  let ?e = "escapeBackticks v"
  show ?case
  proof (cases "i < length ?e")
    case True
    with snoc.prems have "?e ! i = 0x60"
      by (simp add: escapeBackticks_snoc nth_append)
    moreover have "i - 1 < length ?e"
      using True by simp
    ultimately show ?thesis
      using snoc.IH [OF True] by (simp add: escapeBackticks_snoc nth_append)
  next
    case False
    with snoc.prems show ?thesis
      by (auto simp: escapeBackticks_snoc nth_append less_Suc_eq split: if_splits)
  qed
qed

lemma escapeBackticks_length:
  "length (escapeBackticks v) = length v + count_list v (0x60)"
  by (induction v) (simp_all add: escapeBackticks_def)

lemma escapeBackticks_filter:
  "filter (\<lambda>c. c \<noteq> 0x5C) (escapeBackticks v) = filter (\<lambda>c. c \<noteq> 0x5C) v"
  by (induction v) (simp_all add: escapeBackticks_def)

lemma trim_split:
  "s = takeWhile isWhiteSpace s @ trim s
         @ rev (takeWhile isWhiteSpace (rev (dropWhile isWhiteSpace s)))"
proof -
  let ?d = "dropWhile isWhiteSpace s"
  have "?d = rev (rev ?d)"
    by (simp only: rev_rev_ident)
  also have "\<dots> = rev (takeWhile isWhiteSpace (rev ?d) @ dropWhile isWhiteSpace (rev ?d))"
    by (simp only: takeWhile_dropWhile_id)
  also have "\<dots> = trim s @ rev (takeWhile isWhiteSpace (rev ?d))"
    by (simp only: rev_append trim_def)
  finally have "takeWhile isWhiteSpace s @ ?d
      = takeWhile isWhiteSpace s @ trim s @ rev (takeWhile isWhiteSpace (rev ?d))"
    by (rule arg_cong)
  then show ?thesis
    by (simp only: takeWhile_dropWhile_id)
qed

lemma trim_ends:
  assumes "trim s \<noteq> []"
  shows "\<not> isWhiteSpace (hd (trim s))" and "\<not> isWhiteSpace (last (trim s))"
proof -
  let ?d = "dropWhile isWhiteSpace s"
  let ?t = "dropWhile isWhiteSpace (rev ?d)"
  from assms have t: "?t \<noteq> []"
    by (simp only: trim_def rev_is_Nil_conv not_False_eq_True)
  have d: "?d \<noteq> []"
  proof
    assume "?d = []"
    then have "?t = []" by (simp only: rev.simps dropWhile.simps)
    with t show False by contradiction
  qed
  have "last (trim s) = hd ?t"
    using t by (simp only: trim_def last_rev)
  then show "\<not> isWhiteSpace (last (trim s))"
    using hd_dropWhile [OF t] by (simp only: simp_thms)
  have "rev ?d = takeWhile isWhiteSpace (rev ?d) @ ?t"
    by (simp only: takeWhile_dropWhile_id)
  then have "last (rev ?d) = last ?t"
    using t by (metis last_appendR)
  then have "hd (trim s) = hd ?d"
    by (simp only: trim_def hd_rev last_rev)
  then show "\<not> isWhiteSpace (hd (trim s))"
    using hd_dropWhile [OF d] by (simp only: simp_thms)
qed

lemma boldScript_runConversion:
  "runConversion (exampleEuropa exampleRegistry)
     (rootOf (exampleEuropa exampleRegistry) (HtmlElement boldScript)) =
   (Throw ''boom'',
    \<lparr>conv = (newConversion (exampleEuropa exampleRegistry))
              \<lparr>element := Some (elementNode ''SCRIPT'' []), buffer := js ''**x'',
               atNoWhiteSpace := True\<rparr>,
     calls = [BeforeAll 1, BeforeAll 1, BeforeAll 2, BeforeAll 3,
              Before 1 boldScript, Convert 1 boldScript, Output (js ''x'') True,
              Before 2 (elementNode ''SCRIPT'' [])]\<rparr>)"
  by (simp add: eval_defs runConversion_def)

lemma forOwn_afterAll_extends: "\<exists>d. calls (snd (forOwn_afterAll ps m)) = calls m @ d"
proof (induction ps arbitrary: m)
  case Nil
  show ?case by simp
next
  case (Cons kp ps)
  obtain k p where kp: "kp = (k, p)" by (cases kp)
  obtain r m1 where step: "callAfterAll p m = (r, m1)" by (cases "callAfterAll p m")
  have c1: "calls m1 = calls m @ [AfterAll (plugin_id p)]"
    using step by (auto simp: callAfterAll_def split: prod.splits)
  show ?case
  proof (cases r)
    case (Throw err)
    with kp step c1 show ?thesis by simp
  next
    case (Return u)
    from Cons.IH [of m1] obtain d where "calls (snd (forOwn_afterAll ps m1)) = calls m1 @ d"
      by blast
    with kp step c1 Return show ?thesis by simp
  qed
qed

lemma padded_runConversion:
  "runConversion (exampleEuropa strongRegistry)
     (rootOf (exampleEuropa strongRegistry) (HtmlString paddedHi)) =
   (Return (),
    \<lparr>conv = (newConversion (exampleEuropa strongRegistry))
              \<lparr>element := Some (elementNode ''div'' [textNode paddedHi]), buffer := paddedHi\<rparr>,
     calls = [BeforeAll 1, BeforeAll 1, Output paddedHi True, AfterAll 1, AfterAll 1]\<rparr>)"
  by (simp add: eval_defs runConversion_def)

lemma div_visit:
  "convertElement (exampleEuropa strongRegistry)
     (Some (elementNode ''div'' [textNode (js ''x'')]))
     \<lparr>conv = newConversion (exampleEuropa strongRegistry), calls = [BeforeAll 1, BeforeAll 1]\<rparr>
   = (Return (),
      \<lparr>conv = (newConversion (exampleEuropa strongRegistry))
                \<lparr>element := Some (elementNode ''div'' [textNode (js ''x'')]), buffer := js ''x''\<rparr>,
       calls = [BeforeAll 1, BeforeAll 1, Output (js ''x'') True]\<rparr>)"
  by (simp add: eval_defs)

lemma strong_beforeAll:
  "forOwn_beforeAll (plugins (exampleEuropa strongRegistry))
     \<lparr>conv = newConversion (exampleEuropa strongRegistry), calls = []\<rparr>
   = (Return (),
      \<lparr>conv = newConversion (exampleEuropa strongRegistry), calls = [BeforeAll 1, BeforeAll 1]\<rparr>)"
  by (simp add: eval_defs)

section \<open>The visit of a single node\<close>

text \<open>
  C1, as the code has it. For every visible element matched by a plugin whose visit
  returns, the calls made during the visit are: \<open>before\<close> of that plugin for that element,
  its \<open>convert\<close> (\<open>transform\<close>), the calls made for the descendants, and last \<open>after\<close> of
  that plugin for that element. Between the two, every \<open>before\<close> is paired with its \<open>after\<close>
  and none of them is for this element, so each of the two hooks is called exactly once for
  it, in that order, whatever \<open>convert\<close> returned. The engine has no \<open>try\<close>/\<open>finally\<close>:
  when a hook or the visit of a descendant throws, the visit is left at once and \<open>after\<close>
  is not called, which the counterexample shows.
\<close>

theorem before_after_paired:
  assumes "nodeType el = ELEMENT_NODE" and "isVisible el"
    and "map_of (plugins E) (toLowerCase (nodeName el)) = Some p"
    and "convertElement E (Some el) m = (Return (), m')"
  shows "\<exists>mid. calls m' = calls m @ [Before (plugin_id p) el, Convert (plugin_id p) el] @ mid
                   @ [After (plugin_id p) el]
           \<and> paired mid
           \<and> (\<forall>i. Before i el \<notin> set mid \<and> After i el \<notin> set mid)"
proof -
  from matched_element_calls [OF assms(1-3) children_extends assms(4)]
  obtain mid where mid: "calls m' = calls m @ Before (plugin_id p) el
      # Convert (plugin_id p) el # mid @ [After (plugin_id p) el]" "paired mid"
    "\<forall>c\<in>set mid. \<not> isAllHook c \<and> (\<forall>n. callNode c = Some n \<longrightarrow> size n < size el)"
    by auto
  have "Before i el \<notin> set mid \<and> After i el \<notin> set mid" for i
    using mid(3) by fastforce
  with mid(1,2) show ?thesis by auto
qed

theorem before_after_paired_witness:
  "nodeType boldText = ELEMENT_NODE \<and> isVisible boldText
   \<and> map_of (plugins (exampleEuropa exampleRegistry)) (toLowerCase (nodeName boldText))
       = Some (StrongPlugin plainOutput)
   \<and> fst (convertElement (exampleEuropa exampleRegistry) (Some boldText) startMachine) = Return ()
   \<and> (\<exists>mid. calls (snd (convertElement (exampleEuropa exampleRegistry) (Some boldText) startMachine))
         = calls startMachine
           @ [Before (plugin_id (StrongPlugin plainOutput)) boldText,
              Convert (plugin_id (StrongPlugin plainOutput)) boldText]
           @ mid @ [After (plugin_id (StrongPlugin plainOutput)) boldText]
        \<and> paired mid
        \<and> (\<forall>i. Before i boldText \<notin> set mid \<and> After i boldText \<notin> set mid))"
proof -
  have h1: "nodeType boldText = ELEMENT_NODE" by (simp add: eval_defs)
  have h2: "isVisible boldText" by (simp add: eval_defs)
  have h3: "map_of (plugins (exampleEuropa exampleRegistry)) (toLowerCase (nodeName boldText))
       = Some (StrongPlugin plainOutput)" by (simp add: eval_defs)
  have h4: "convertElement (exampleEuropa exampleRegistry) (Some boldText) startMachine =
     (Return (), snd (convertElement (exampleEuropa exampleRegistry) (Some boldText) startMachine))"
    by (simp only: boldText_run snd_conv)
  have h5: "fst (convertElement (exampleEuropa exampleRegistry) (Some boldText) startMachine)
      = Return ()"
    by (simp only: boldText_run fst_conv)
  show ?thesis
    using h1 h2 h3 h5 before_after_paired [OF h1 h2 h3 h4] by blast
qed

theorem after_missing_on_throw_counterexample:
  "map_of (plugins (exampleEuropa exampleRegistry)) (toLowerCase (nodeName boldScript))
      = Some (StrongPlugin plainOutput)
   \<and> plugin_id (StrongPlugin plainOutput) = 1
   \<and> convert (exampleEuropa exampleRegistry) (HtmlElement boldScript) =
       (Throw ''boom'',
        [BeforeAll 1, BeforeAll 1, BeforeAll 2, BeforeAll 3,
         Before 1 boldScript, Convert 1 boldScript, Output (js ''x'') True,
         Before 2 (elementNode ''SCRIPT'' [])])
   \<and> After 1 boldScript \<notin> set (snd (convert (exampleEuropa exampleRegistry) (HtmlElement boldScript)))"
  by (simp add: eval_defs convert_def runConversion_def)





text \<open>
  C4. An element whose computed \<open>display\<close> is \<open>none\<close> or whose computed \<open>visibility\<close> is
  \<open>hidden\<close> aborts its whole subtree: the visit returns with the conversion and the
  sequence of calls exactly as they were, so no hook has run, no child has been visited and
  nothing has been written, whatever the children are.
\<close>

theorem invisible_subtree_skipped:
  assumes "nodeType el = ELEMENT_NODE"
    and "display el = ''none'' \<or> visibility el = ''hidden''"
  shows "convertElement E (Some el) m = (Return (), m)"
  using assms by (auto simp: isVisible_def)

theorem invisible_subtree_skipped_witness:
  "nodeType (Node ELEMENT_NODE ''B'' None ''none'' ''visible'' [boldText]) = ELEMENT_NODE
   \<and> display (Node ELEMENT_NODE ''B'' None ''none'' ''visible'' [boldText]) = ''none''
   \<and> convertElement (exampleEuropa exampleRegistry)
       (Some (Node ELEMENT_NODE ''B'' None ''none'' ''visible'' [boldText])) startMachine
     = (Return (), startMachine)"
  using invisible_subtree_skipped
    [of "Node ELEMENT_NODE ''B'' None ''none'' ''visible'' [boldText]"
        "exampleEuropa exampleRegistry" startMachine]
  by simp

text \<open>
  C5. A text node is handed to \<open>output\<close> according to the mode of the conversion: in a
  preformatted block the text as it is, not collapsibly; otherwise in a code block the text
  with every backtick escaped, not collapsibly; otherwise the text as it is, collapsibly.
  Escaping inserts backslashes only, one for each backtick, and leaves every backtick
  directly behind a backslash.
\<close>

theorem text_node_write:
  assumes "nodeType n = TEXT_NODE" and "nodeValue n = Some v"
  shows "convertElement E (Some n) m =
           (if inPreformattedBlock (conv m) then
              (Return (), \<lparr>conv = conversion_output E v False (conv m),
                           calls = calls m @ [Output v False]\<rparr>)
            else if inCodeBlock (conv m) then
              (Return (), \<lparr>conv = conversion_output E (escapeBackticks v) False (conv m),
                           calls = calls m @ [Output (escapeBackticks v) False]\<rparr>)
            else
              (Return (), \<lparr>conv = conversion_output E v True (conv m),
                           calls = calls m @ [Output v True]\<rparr>))
         \<and> filter (\<lambda>c. c \<noteq> 0x5C) (escapeBackticks v) = filter (\<lambda>c. c \<noteq> 0x5C) v
         \<and> length (escapeBackticks v) = length v + count_list v (0x60)
         \<and> (\<forall>i<length (escapeBackticks v). escapeBackticks v ! i = 0x60 \<longrightarrow>
                0 < i \<and> escapeBackticks v ! (i - 1) = 0x5C)"
  using assms escapeBackticks_preceded [of _ v]
  by (simp add: callOutput_def ELEMENT_NODE_def TEXT_NODE_def escapeBackticks_length
      escapeBackticks_filter)

theorem text_node_write_witness:
  "nodeType (textNode [0x61, 0x60, 0x62]) = TEXT_NODE
   \<and> nodeValue (textNode [0x61, 0x60, 0x62]) = Some [0x61, 0x60, 0x62]
   \<and> inCodeBlock (conv (startMachine\<lparr>conv := (conv startMachine)\<lparr>inCodeBlock := True\<rparr>\<rparr>))
   \<and> \<not> inPreformattedBlock (conv (startMachine\<lparr>conv := (conv startMachine)\<lparr>inCodeBlock := True\<rparr>\<rparr>))
   \<and> escapeBackticks [0x61, 0x60, 0x62] = [0x61, 0x5C, 0x60, 0x62]
   \<and> convertElement (exampleEuropa exampleRegistry)
        (Some (textNode [0x61, 0x60, 0x62]))
        (startMachine\<lparr>conv := (conv startMachine)\<lparr>inCodeBlock := True\<rparr>\<rparr>)
      = (Return (),
         \<lparr>conv = (conv startMachine)
                   \<lparr>inCodeBlock := True, buffer := [0x61, 0x5C, 0x60, 0x62]\<rparr>,
          calls = [Output [0x61, 0x5C, 0x60, 0x62] False]\<rparr>)"
proof -
  have h1: "nodeType (textNode [0x61, 0x60, 0x62]) = TEXT_NODE"
    by (simp add: textNode_def)
  have h2: "nodeValue (textNode [0x61, 0x60, 0x62])
      = Some [0x61, 0x60, 0x62]"
    by (simp add: textNode_def)
  have e: "escapeBackticks [0x61, 0x60, 0x62] = [0x61, 0x5C, 0x60, 0x62]"
    by (simp add: escapeBackticks_def)
  have c: "inCodeBlock (conv (startMachine\<lparr>conv := (conv startMachine)\<lparr>inCodeBlock := True\<rparr>\<rparr>))"
    "\<not> inPreformattedBlock (conv (startMachine\<lparr>conv := (conv startMachine)\<lparr>inCodeBlock := True\<rparr>\<rparr>))"
    by (simp_all add: example_defs)
  have out: "conversion_output (exampleEuropa exampleRegistry) = plainOutput"
    by (simp add: exampleEuropa_def)
  from text_node_write [OF h1 h2, of "exampleEuropa exampleRegistry"
      "startMachine\<lparr>conv := (conv startMachine)\<lparr>inCodeBlock := True\<rparr>\<rparr>"] h1 h2 c e out
  show ?thesis
    by (simp add: plainOutput_def startMachine_def exampleEuropa_def del: convertElement.simps)
qed

text \<open>
  C9. A node that is neither an element nor a text node (a comment, a processing
  instruction) leaves the conversion and the sequence of calls unchanged: nothing is
  written, no hook runs, and its children are not visited.
\<close>

theorem other_node_ignored:
  assumes "nodeType n \<noteq> ELEMENT_NODE" and "nodeType n \<noteq> TEXT_NODE"
  shows "convertElement E (Some n) m = (Return (), m)"
  using assms by simp

theorem other_node_ignored_witness:
  "nodeType (Node 8 ''#comment'' (Some (js ''note'')) [] [] [boldText]) \<noteq> ELEMENT_NODE
   \<and> nodeType (Node 8 ''#comment'' (Some (js ''note'')) [] [] [boldText]) \<noteq> TEXT_NODE
   \<and> convertElement (exampleEuropa exampleRegistry)
       (Some (Node 8 ''#comment'' (Some (js ''note'')) [] [] [boldText])) startMachine
     = (Return (), startMachine)"
  using other_node_ignored
    [of "Node 8 ''#comment'' (Some (js ''note'')) [] [] [boldText]"
        "exampleEuropa exampleRegistry" startMachine]
  by (simp add: ELEMENT_NODE_def TEXT_NODE_def)

text \<open>
  C10. A text node whose \<open>nodeValue\<close> is \<open>null\<close> or \<open>undefined\<close> is written as the empty
  string: the visit returns, having made the one call of \<open>output\<close> with the empty string
  (collapsibly unless the conversion is in a preformatted or a code block).
\<close>

theorem null_text_value:
  assumes "nodeType n = TEXT_NODE" and "nodeValue n = None"
  shows "convertElement E (Some n) m =
           (Return (),
            \<lparr>conv = conversion_output E []
                      (\<not> inPreformattedBlock (conv m) \<and> \<not> inCodeBlock (conv m)) (conv m),
             calls = calls m @
                      [Output [] (\<not> inPreformattedBlock (conv m) \<and> \<not> inCodeBlock (conv m))]\<rparr>)"
  using assms
  by (simp add: callOutput_def escapeBackticks_Nil ELEMENT_NODE_def TEXT_NODE_def)

theorem null_text_value_witness:
  "nodeType (Node TEXT_NODE ''#text'' None [] [] []) = TEXT_NODE
   \<and> nodeValue (Node TEXT_NODE ''#text'' None [] [] []) = None
   \<and> convertElement (exampleEuropa exampleRegistry)
        (Some (Node TEXT_NODE ''#text'' None [] [] [])) startMachine
      = (Return (), startMachine\<lparr>calls := [Output [] True]\<rparr>)"
  using null_text_value
    [of "Node TEXT_NODE ''#text'' None [] [] []" "exampleEuropa exampleRegistry" startMachine]
  by (simp add: example_defs)

section \<open>The conversion as a whole\<close>

text \<open>
  C3, as the code has it. For every conversion of a non-empty input that returns, the calls
  are: \<open>beforeAll\<close> once for every entry of the registry, in its order; then the calls of
  the traversal, none of which is a \<open>beforeAll\<close> or an \<open>afterAll\<close>, however many elements
  match; then \<open>afterAll\<close> once for every entry of the registry. The registry has one entry
  for each tag name, so a plugin is called as many times as it has tag names registered:
  twice for a plugin registered for \<open>b\<close> and \<open>strong\<close>, as the counterexample shows.
\<close>

theorem allHooks_once_per_entry:
  assumes "\<not> falsy html" and "convert E html = (Return markdown, log)"
  shows "\<exists>mid. log = map (\<lambda>(k, p). BeforeAll (plugin_id p)) (plugins E) @ mid
                   @ map (\<lambda>(k, p). AfterAll (plugin_id p)) (plugins E)
           \<and> (\<forall>c\<in>set mid. \<not> isAllHook c)
           \<and> (\<forall>i. count_list log (BeforeAll i)
                      = length (filter (\<lambda>(k, p). plugin_id p = i) (plugins E))
                  \<and> count_list log (AfterAll i)
                      = length (filter (\<lambda>(k, p). plugin_id p = i) (plugins E)))"
proof -
  obtain r m where run: "runConversion E (rootOf E html) = (r, m)"
    by (cases "runConversion E (rootOf E html)")
  from assms run have "r = Return ()" "log = calls m"
    by (auto simp: convert_def split: completion.splits)
  with run runConversion_calls [of E "rootOf E html" m]
  obtain mid where mid: "log = map (\<lambda>(k, p). BeforeAll (plugin_id p)) (plugins E) @ mid
      @ map (\<lambda>(k, p). AfterAll (plugin_id p)) (plugins E)" "\<forall>c\<in>set mid. \<not> isAllHook c"
    by auto
  have "count_list log (BeforeAll i) = length (filter (\<lambda>(k, p). plugin_id p = i) (plugins E))
      \<and> count_list log (AfterAll i) = length (filter (\<lambda>(k, p). plugin_id p = i) (plugins E))" for i
    unfolding mid(1)
    by (simp add: count_list_BeforeAll count_list_AfterAll count_list_no_allHook [OF mid(2)])
  with mid show ?thesis by blast
qed

theorem allHooks_once_per_entry_witness:
  "\<not> falsy (HtmlString (js '' hi ''))
   \<and> fst (convert (exampleEuropa exampleRegistry) (HtmlString (js '' hi ''))) = Return (js ''hi'')
   \<and> (\<exists>mid. snd (convert (exampleEuropa exampleRegistry) (HtmlString (js '' hi '')))
          = map (\<lambda>(k, p). BeforeAll (plugin_id p)) (plugins (exampleEuropa exampleRegistry))
            @ mid
            @ map (\<lambda>(k, p). AfterAll (plugin_id p)) (plugins (exampleEuropa exampleRegistry))
        \<and> (\<forall>c\<in>set mid. \<not> isAllHook c)
        \<and> (\<forall>i. count_list (snd (convert (exampleEuropa exampleRegistry) (HtmlString (js '' hi ''))))
                   (BeforeAll i)
                 = length (filter (\<lambda>(k, p). plugin_id p = i) (plugins (exampleEuropa exampleRegistry)))
               \<and> count_list (snd (convert (exampleEuropa exampleRegistry) (HtmlString (js '' hi ''))))
                   (AfterAll i)
                 = length (filter (\<lambda>(k, p). plugin_id p = i) (plugins (exampleEuropa exampleRegistry)))))"
proof -
  have h1: "\<not> falsy (HtmlString (js '' hi ''))" by (simp add: js_def)
  have h2: "convert (exampleEuropa exampleRegistry) (HtmlString (js '' hi '')) =
      (Return (js ''hi''), snd (convert (exampleEuropa exampleRegistry) (HtmlString (js '' hi ''))))"
    by (simp only: plain_run snd_conv)
  have h3: "fst (convert (exampleEuropa exampleRegistry) (HtmlString (js '' hi ''))) = Return (js ''hi'')"
    by (simp only: plain_run fst_conv)
  show ?thesis
    using h1 h3 allHooks_once_per_entry [OF h1 h2] by blast
qed

theorem allHooks_per_tag_name_counterexample:
  "map fst (plugins (exampleEuropa strongRegistry)) = [''b'', ''strong'']
   \<and> map (plugin_id \<circ> snd) (plugins (exampleEuropa strongRegistry)) = [1, 1]
   \<and> convert (exampleEuropa strongRegistry) (HtmlString (js ''x'')) =
       (Return (js ''x''), [BeforeAll 1, BeforeAll 1, Output (js ''x'') True, AfterAll 1, AfterAll 1])
   \<and> count_list (snd (convert (exampleEuropa strongRegistry) (HtmlString (js ''x'')))) (BeforeAll 1) = 2
   \<and> count_list (snd (convert (exampleEuropa strongRegistry) (HtmlString (js ''x'')))) (AfterAll 1) = 2
   \<and> convert (exampleEuropa strongRegistry) (HtmlString []) = (Return [], [])"
  by (simp add: eval_defs convert_def runConversion_def trim_def isWhiteSpace_def)

text \<open>
  C6. For an absent or empty input (\<open>undefined\<close>, \<open>null\<close>, the empty string) \<open>convert\<close>
  returns the empty string at once: it does not throw and it has made no call at all, so
  nothing was parsed or traversed and no hook, \<open>beforeAll\<close> and \<open>afterAll\<close> included, ran.
\<close>

theorem falsy_input_empty:
  assumes "falsy html"
  shows "convert E html = (Return [], [])"
  using assms by (simp add: convert_def)

theorem falsy_input_empty_witness:
  "falsy (HtmlString []) \<and> falsy HtmlNull \<and> falsy HtmlUndefined
   \<and> convert (exampleEuropa exampleRegistry) (HtmlString []) = (Return [], [])
   \<and> convert (exampleEuropa exampleRegistry) HtmlNull = (Return [], [])
   \<and> convert (exampleEuropa exampleRegistry) HtmlUndefined = (Return [], [])"
  using falsy_input_empty [of "HtmlString []" "exampleEuropa exampleRegistry"]
    falsy_input_empty [of HtmlNull "exampleEuropa exampleRegistry"]
    falsy_input_empty [of HtmlUndefined "exampleEuropa exampleRegistry"]
  by simp

text \<open>
  C7. For a non-empty input, let the hooks and the traversal end in \<open>(r, m)\<close>. When they
  returned, \<open>convert\<close> ends with \<open>append('')\<close>, which flushes what the conversion still
  holds back, and returns the buffer trimmed: the buffer is the result between two runs of
  white space, and the result neither starts nor ends with white space. When one of them
  threw, \<open>convert\<close> throws the same error.
\<close>

theorem convert_result_trimmed:
  assumes "\<not> falsy html" and "runConversion E (rootOf E html) = (r, m)"
  shows "(r = Return () \<longrightarrow>
            (\<exists>pre post.
               convert E html
                 = (Return (trim (buffer (conversion_append E [] (conv m)))), calls m)
             \<and> buffer (conversion_append E [] (conv m))
                 = pre @ trim (buffer (conversion_append E [] (conv m))) @ post
             \<and> (\<forall>c\<in>set pre. isWhiteSpace c) \<and> (\<forall>c\<in>set post. isWhiteSpace c)
             \<and> (trim (buffer (conversion_append E [] (conv m))) \<noteq> [] \<longrightarrow>
                   \<not> isWhiteSpace (hd (trim (buffer (conversion_append E [] (conv m)))))
                 \<and> \<not> isWhiteSpace (last (trim (buffer (conversion_append E [] (conv m))))))))
       \<and> (\<forall>err. r = Throw err \<longrightarrow> convert E html = (Throw err, calls m))"
proof -
  let ?b = "buffer (conversion_append E [] (conv m))"
  have split: "?b = takeWhile isWhiteSpace ?b @ trim ?b
      @ rev (takeWhile isWhiteSpace (rev (dropWhile isWhiteSpace ?b)))"
    by (rule trim_split)
  have pre: "\<forall>c\<in>set (takeWhile isWhiteSpace ?b). isWhiteSpace c"
    by (auto dest: set_takeWhileD)
  have post:
    "\<forall>c\<in>set (rev (takeWhile isWhiteSpace (rev (dropWhile isWhiteSpace ?b)))). isWhiteSpace c"
    by (auto dest: set_takeWhileD)
  have returned: "\<exists>pre post.
               convert E html = (Return (trim ?b), calls m)
             \<and> ?b = pre @ trim ?b @ post
             \<and> (\<forall>c\<in>set pre. isWhiteSpace c) \<and> (\<forall>c\<in>set post. isWhiteSpace c)
             \<and> (trim ?b \<noteq> [] \<longrightarrow>
                   \<not> isWhiteSpace (hd (trim ?b)) \<and> \<not> isWhiteSpace (last (trim ?b)))"
    if "r = Return ()"
  proof -
    have "convert E html = (Return (trim ?b), calls m)"
      using assms that by (simp add: convert_def)
    then show ?thesis
      using split pre post trim_ends [of ?b] by blast
  qed
  have thrown: "convert E html = (Throw err, calls m)" if "r = Throw err" for err
    using assms that by (simp add: convert_def)
  from returned thrown show ?thesis by blast
qed

theorem convert_result_trimmed_witness:
  "\<not> falsy (HtmlString paddedHi)
   \<and> paddedHi = [0xFEFF, 0x00A0, 0x0020, 0x0068, 0x0069, 0x0020, 0x2028, 0x3000]
   \<and> fst (runConversion (exampleEuropa strongRegistry)
            (rootOf (exampleEuropa strongRegistry) (HtmlString paddedHi))) = Return ()
   \<and> buffer (conversion_append (exampleEuropa strongRegistry) []
        (conv (snd (runConversion (exampleEuropa strongRegistry)
                      (rootOf (exampleEuropa strongRegistry) (HtmlString paddedHi))))))
       = paddedHi
   \<and> trim paddedHi = [0x0068, 0x0069]
   \<and> fst (convert (exampleEuropa strongRegistry) (HtmlString paddedHi)) = Return [0x0068, 0x0069]
   \<and> \<not> falsy (HtmlElement boldScript)
   \<and> fst (runConversion (exampleEuropa exampleRegistry)
            (rootOf (exampleEuropa exampleRegistry) (HtmlElement boldScript))) = Throw ''boom''
   \<and> fst (convert (exampleEuropa exampleRegistry) (HtmlElement boldScript)) = Throw ''boom''"
proof -
  let ?E = "exampleEuropa strongRegistry"
  let ?run = "runConversion ?E (rootOf ?E (HtmlString paddedHi))"
  have h1: "\<not> falsy (HtmlString paddedHi)" by (simp add: paddedHi_def)
  have h2: "?run = (fst ?run, snd ?run)" by (simp only: prod.collapse)
  have p: "paddedHi = [0xFEFF, 0x00A0, 0x0020, 0x0068, 0x0069, 0x0020, 0x2028, 0x3000]"
    by (simp add: paddedHi_def js_def)
  have r: "fst ?run = Return ()"
    by (simp only: padded_runConversion fst_conv)
  have b: "buffer (conversion_append ?E [] (conv (snd ?run))) = paddedHi"
    unfolding padded_runConversion snd_conv by (simp add: exampleEuropa_def)
  have t: "trim paddedHi = [0x0068, 0x0069]"
    by (simp add: p trim_def isWhiteSpace_def)
  from convert_result_trimmed [OF h1 h2] r
  have "fst (convert ?E (HtmlString paddedHi))
      = Return (trim (buffer (conversion_append ?E [] (conv (snd ?run)))))"
    by auto
  then have c: "fst (convert ?E (HtmlString paddedHi)) = Return [0x0068, 0x0069]"
    by (simp only: b t)
  let ?F = "exampleEuropa exampleRegistry"
  let ?thrown = "runConversion ?F (rootOf ?F (HtmlElement boldScript))"
  have g1: "\<not> falsy (HtmlElement boldScript)" by simp
  have g2: "?thrown = (fst ?thrown, snd ?thrown)" by (simp only: prod.collapse)
  have g3: "fst ?thrown = Throw ''boom''"
    by (simp only: boldScript_runConversion fst_conv)
  from convert_result_trimmed [OF g1 g2] g3
  have "convert ?F (HtmlElement boldScript) = (Throw ''boom'', calls (snd ?thrown))"
    by blast
  then have d: "fst (convert ?F (HtmlElement boldScript)) = Throw ''boom''"
    by (simp only: fst_conv)
  show ?thesis
    using h1 p r b t c g1 g3 d by (simp only: simp_thms)
qed

text \<open>
  C8. When \<open>convert\<close> receives a non-empty string, the node handed to \<open>convertElement\<close>
  after the \<open>beforeAll\<close> hooks is the new \<open>div\<close> whose inner HTML was set to that string;
  when it receives an element, it is that element itself. What \<open>convert\<close> returns or throws
  is what that visit and the \<open>afterAll\<close> hooks make of it, and when the root is a visible
  element with a matched plugin, the first call after the \<open>beforeAll\<close> hooks is \<open>before\<close>
  for the root.
\<close>

theorem traversal_root:
  assumes input: "html = HtmlString s \<and> s \<noteq> [] \<and> root = setInnerHTML E (createElement E ''div'') s
                  \<or> html = HtmlElement root"
    and before: "forOwn_beforeAll (plugins E) \<lparr>conv = newConversion E, calls = []\<rparr> = (Return (), m1)"
    and visit: "convertElement E (Some root) m1 = (r, m2)"
  shows "(\<forall>err. r = Throw err \<longrightarrow> convert E html = (Throw err, calls m2))
       \<and> (r = Return () \<longrightarrow>
             convert E html =
               (case forOwn_afterAll (plugins E) m2 of
                  (Throw err, m3) \<Rightarrow> (Throw err, calls m3)
                | (Return u, m3) \<Rightarrow>
                    (Return (trim (buffer (conversion_append E [] (conv m3)))), calls m3)))
       \<and> (\<forall>p. nodeType root = ELEMENT_NODE \<and> isVisible root
                \<and> map_of (plugins E) (toLowerCase (nodeName root)) = Some p \<longrightarrow>
              (\<exists>rest. snd (convert E html) =
                 map (\<lambda>(k, q). BeforeAll (plugin_id q)) (plugins E)
                 @ Before (plugin_id p) root # rest))"
proof -
  from input have nf: "\<not> falsy html" and root: "rootOf E html = Some root"
    by auto
  have thrown: "convert E html = (Throw err, calls m2)" if "r = Throw err" for err
    using nf root before visit that by (simp add: convert_def runConversion_def)
  have returned: "convert E html =
               (case forOwn_afterAll (plugins E) m2 of
                  (Throw err, m3) \<Rightarrow> (Throw err, calls m3)
                | (Return u, m3) \<Rightarrow>
                    (Return (trim (buffer (conversion_append E [] (conv m3)))), calls m3))"
    if "r = Return ()"
    using nf root before visit that
    by (simp add: convert_def runConversion_def split: prod.splits completion.splits)
  have log: "\<exists>d. snd (convert E html) = calls m2 @ d"
  proof (cases r)
    case (Throw err)
    then show ?thesis using thrown by simp
  next
    case (Return u)
    obtain d where "calls (snd (forOwn_afterAll (plugins E) m2)) = calls m2 @ d"
      using forOwn_afterAll_extends by blast
    then show ?thesis
      using returned Return by (auto split: prod.splits completion.splits)
  qed
  have first: "\<exists>rest. snd (convert E html) =
                 map (\<lambda>(k, q). BeforeAll (plugin_id q)) (plugins E)
                 @ Before (plugin_id p) root # rest"
    if m: "nodeType root = ELEMENT_NODE \<and> isVisible root
           \<and> map_of (plugins E) (toLowerCase (nodeName root)) = Some p" for p
  proof -
    have c1: "calls m1 = map (\<lambda>(k, q). BeforeAll (plugin_id q)) (plugins E)"
      using forOwn_beforeAll_calls [OF before] by simp
    from m have "nodeType root = ELEMENT_NODE" "isVisible root"
      "map_of (plugins E) (toLowerCase (nodeName root)) = Some p"
      by simp_all
    from matched_element_calls [OF this children_extends visit]
    obtain d where "calls m2 = calls m1 @ Before (plugin_id p) root # d"
      by blast
    with log c1 show ?thesis by auto
  qed
  from thrown returned first show ?thesis by blast
qed

theorem traversal_root_witness:
  "js ''x'' \<noteq> []
   \<and> setInnerHTML (exampleEuropa strongRegistry)
        (createElement (exampleEuropa strongRegistry) ''div'') (js ''x'')
      = elementNode ''div'' [textNode (js ''x'')]
   \<and> convert (exampleEuropa strongRegistry) (HtmlString (js ''x'')) =
       (Return (js ''x''),
        [BeforeAll 1, BeforeAll 1, Output (js ''x'') True, AfterAll 1, AfterAll 1])
   \<and> nodeType boldText = ELEMENT_NODE \<and> isVisible boldText
   \<and> map_of (plugins (exampleEuropa strongRegistry)) (toLowerCase (nodeName boldText))
       = Some (StrongPlugin plainOutput)
   \<and> (\<exists>rest. snd (convert (exampleEuropa strongRegistry) (HtmlElement boldText)) =
         [BeforeAll 1, BeforeAll 1] @ Before 1 boldText # rest)"
proof -
  let ?E = "exampleEuropa strongRegistry"
  let ?div = "elementNode ''div'' [textNode (js ''x'')]"
  let ?m1 = "\<lparr>conv = newConversion ?E, calls = [BeforeAll 1, BeforeAll 1]\<rparr>"
  let ?m2 = "\<lparr>conv = (newConversion ?E)\<lparr>element := Some ?div, buffer := js ''x''\<rparr>,
             calls = [BeforeAll 1, BeforeAll 1, Output (js ''x'') True]\<rparr>"
  have s: "js ''x'' \<noteq> []" by (simp add: js_def)
  have d: "setInnerHTML ?E (createElement ?E ''div'') (js ''x'') = ?div"
    by (simp add: exampleEuropa_def elementNode_def)
  have i1: "HtmlString (js ''x'') = HtmlString (js ''x'') \<and> js ''x'' \<noteq> []
              \<and> ?div = setInnerHTML ?E (createElement ?E ''div'') (js ''x'')
            \<or> HtmlString (js ''x'') = HtmlElement ?div"
    using s d by (simp only: simp_thms)
  have after: "forOwn_afterAll (plugins ?E) ?m2 =
      (Return (), \<lparr>conv = (newConversion ?E)\<lparr>element := Some ?div, buffer := js ''x''\<rparr>,
         calls = [BeforeAll 1, BeforeAll 1, Output (js ''x'') True, AfterAll 1, AfterAll 1]\<rparr>)"
    by (simp add: eval_defs)
  have tr: "trim (buffer (conversion_append ?E []
                ((newConversion ?E)\<lparr>element := Some ?div, buffer := js ''x''\<rparr>))) = js ''x''"
    by (simp add: exampleEuropa_def trim_def isWhiteSpace_def js_def)
  from traversal_root [OF i1 strong_beforeAll div_visit]
  have "convert ?E (HtmlString (js ''x'')) =
      (case forOwn_afterAll (plugins ?E) ?m2 of
         (Throw err, m3) \<Rightarrow> (Throw err, calls m3)
       | (Return u, m3) \<Rightarrow> (Return (trim (buffer (conversion_append ?E [] (conv m3)))), calls m3))"
    by blast
  then have a: "convert ?E (HtmlString (js ''x'')) =
       (Return (js ''x''),
        [BeforeAll 1, BeforeAll 1, Output (js ''x'') True, AfterAll 1, AfterAll 1])"
    unfolding after by (simp add: tr)
  have h1: "nodeType boldText = ELEMENT_NODE" by (simp add: eval_defs)
  have h2: "isVisible boldText" by (simp add: eval_defs)
  have h3: "map_of (plugins ?E) (toLowerCase (nodeName boldText)) = Some (StrongPlugin plainOutput)"
    by (simp add: eval_defs)
  have i2: "HtmlElement boldText = HtmlString [] \<and> [] \<noteq> ([] :: jsstring)
              \<and> boldText = setInnerHTML ?E (createElement ?E ''div'') []
            \<or> HtmlElement boldText = HtmlElement boldText"
    by (simp only: simp_thms)
  have v: "convertElement ?E (Some boldText) ?m1
      = (fst (convertElement ?E (Some boldText) ?m1), snd (convertElement ?E (Some boldText) ?m1))"
    by (simp only: prod.collapse)
  have ps: "map (\<lambda>(k, q). BeforeAll (plugin_id q)) (plugins ?E) = [BeforeAll 1, BeforeAll 1]"
    by (simp add: eval_defs)
  have id: "plugin_id (StrongPlugin plainOutput) = 1"
    by (simp add: eval_defs)
  from traversal_root [OF i2 strong_beforeAll v] h1 h2 h3
  have "\<exists>rest. snd (convert ?E (HtmlElement boldText)) =
      map (\<lambda>(k, q). BeforeAll (plugin_id q)) (plugins ?E)
      @ Before (plugin_id (StrongPlugin plainOutput)) boldText # rest"
    by blast
  then have b: "\<exists>rest. snd (convert ?E (HtmlElement boldText)) =
         [BeforeAll 1, BeforeAll 1] @ Before 1 boldText # rest"
    by (simp only: ps id)
  show ?thesis
    using s d a h1 h2 h3 b by (simp only: simp_thms)
qed

end
